theory Spec2Isabelle
  imports Complex_Main "HOL-Library.Char_ord" "HOL-Library.List_Lexorder"
    "HOL-Library.Product_Lexorder"
begin

section \<open>The homophone engine of \<^verbatim>\<open>Software/Word/homoform.py\<close>\<close>

text \<open>
  The engine has two workers. \<^verbatim>\<open>PhonemeMapBuilder.run\<close> turns the CMU pronouncing
  dictionary into a map from stress-free phoneme sequences to words, emitting a progress
  percentage before each dictionary entry. \<^verbatim>\<open>HomophoneWorker.process\<close> looks the query
  word up, scans the map with a fuzzy score, filters by word frequency, sorts and
  truncates. \<^verbatim>\<open>MainWindow.start_search\<close> is the guard in front of the second worker.

  Three things the code takes from libraries are parameters of the model:
  \<^item> \<open>cmu\<close>, the value of \<^verbatim>\<open>cmudict.dict()\<close>: a dictionary, in its iteration order, from
    a word to the list of its pronunciations;
  \<^item> \<open>ratio\<close>, \<^verbatim>\<open>fuzz.ratio\<close> of fuzzywuzzy: an integer score of two strings;
  \<^item> \<open>zipf\<close>, \<^verbatim>\<open>lambda w: zipf_frequency(w, 'en')\<close> of wordfreq: a float, read as a real
    number (the code only negates and compares frequencies, which floats do exactly).

  Strings are ASCII strings: \<^verbatim>\<open>str.lower\<close>, \<^verbatim>\<open>str.isdigit\<close> and \<^verbatim>\<open>str.strip\<close> are modelled
  on the ASCII range, which is the alphabet of the CMU dictionary.
\<close>

subsection \<open>Strings\<close>

type_synonym phoneme = string
type_synonym pron = "phoneme list"
type_synonym cmu_dict = "(string \<times> pron list) list"
type_synonym phoneme_map = "(pron \<times> string list) list"

datatype py_error = IndexError | TypeError

definition isupper_char :: "char \<Rightarrow> bool" where
  "isupper_char c \<longleftrightarrow> 65 \<le> (of_char c :: nat) \<and> (of_char c :: nat) \<le> 90"

definition lower_char :: "char \<Rightarrow> char" where
  "lower_char c = (if isupper_char c then char_of ((of_char c :: nat) + 32) else c)"

definition lower :: "string \<Rightarrow> string" where
  "lower s = map lower_char s"

definition isdigit :: "char \<Rightarrow> bool" where
  "isdigit c \<longleftrightarrow> 48 \<le> (of_char c :: nat) \<and> (of_char c :: nat) \<le> 57"

definition isspace :: "char \<Rightarrow> bool" where
  "isspace c \<longleftrightarrow> (of_char c :: nat) \<in> {9, 10, 11, 12, 13, 28, 29, 30, 31, 32}"

definition strip :: "string \<Rightarrow> string" where
  "strip s = rev (dropWhile isspace (rev (dropWhile isspace s)))"

text \<open>\<^verbatim>\<open>sep.join(xs)\<close>.\<close>

fun join :: "string \<Rightarrow> string list \<Rightarrow> string" where
  "join sep [] = []"
| "join sep [x] = x"
| "join sep (x # y # ys) = x @ sep @ join sep (y # ys)"

subsection \<open>Normalising a pronunciation\<close>

text \<open>
  \<^verbatim>\<open>p[:-1] if p[-1].isdigit() else p\<close>: the stress digit at the end of a phoneme is
  dropped. \<^verbatim>\<open>p[-1]\<close> raises IndexError on the empty string.
\<close>

definition strip_stress :: "phoneme \<Rightarrow> py_error + phoneme" where
  "strip_stress p =
     (if p = [] then Inl IndexError
      else if isdigit (last p) then Inr (butlast p) else Inr p)"

text \<open>\<^verbatim>\<open>tuple(p[:-1] if p[-1].isdigit() else p for p in pron)\<close>.\<close>

fun clean :: "pron \<Rightarrow> py_error + pron" where
  "clean [] = Inr []"
| "clean (p # ps) =
     (case strip_stress p of
        Inl e \<Rightarrow> Inl e
      | Inr q \<Rightarrow> (case clean ps of Inl e \<Rightarrow> Inl e | Inr qs \<Rightarrow> Inr (q # qs)))"

subsection \<open>Dictionaries\<close>

text \<open>
  A Python dictionary is an association list in insertion order.
  \<open>dict_get\<close> is the read \<^verbatim>\<open>d[k]\<close> of a \<^verbatim>\<open>defaultdict(list)\<close>, \<open>dict_append\<close> is
  \<^verbatim>\<open>d[k].append(v)\<close>, and \<open>cmu_get\<close> is \<^verbatim>\<open>cmu_dict.get(w, [])\<close>.
\<close>

definition dict_get :: "('k \<times> 'v list) list \<Rightarrow> 'k \<Rightarrow> 'v list" where
  "dict_get d k = (case map_of d k of None \<Rightarrow> [] | Some vs \<Rightarrow> vs)"

fun dict_append :: "'k \<Rightarrow> 'v \<Rightarrow> ('k \<times> 'v list) list \<Rightarrow> ('k \<times> 'v list) list" where
  "dict_append k v [] = [(k, [v])]"
| "dict_append k v ((k', vs) # d) =
     (if k = k' then (k', vs @ [v]) # d else (k', vs) # dict_append k v d)"

definition cmu_get :: "cmu_dict \<Rightarrow> string \<Rightarrow> pron list" where
  "cmu_get cmu w = (case map_of cmu w of None \<Rightarrow> [] | Some prons \<Rightarrow> prons)"

subsection \<open>PhonemeMapBuilder.run\<close>

text \<open>
  \<^verbatim>\<open>int((i/total)*100)\<close> is computed in binary64: the quotient of the two integers is
  rounded to a float, the product with 100 is rounded again, and \<^verbatim>\<open>int\<close> truncates
  towards zero. The rounding \<open>fl\<close> of a real number to the nearest float is a parameter.
  \<open>float_rounding\<close> collects what the proofs use of it; round-to-nearest in binary64
  has these properties (\<open>1 - 2^-53\<close> is the largest float below 1, and its product with
  100 is nearer to the float \<open>100 - 2^-46\<close> than to 100), and so has exact arithmetic.
\<close>

definition float_rounding :: "(real \<Rightarrow> real) \<Rightarrow> bool" where
  "float_rounding fl \<longleftrightarrow>
     mono fl \<and> fl 0 = 0 \<and>
     fl (1 - 1 / 2 ^ 53) = 1 - 1 / 2 ^ 53 \<and>
     fl ((1 - 1 / 2 ^ 53) * 100) < 100"

definition py_int :: "real \<Rightarrow> int" where
  "py_int r = (if 0 \<le> r then \<lfloor>r\<rfloor> else \<lceil>r\<rceil>)"

definition percent :: "(real \<Rightarrow> real) \<Rightarrow> nat \<Rightarrow> nat \<Rightarrow> int" where
  "percent fl i tot = py_int (fl (fl (real i / real tot) * 100))"

text \<open>
  The inner loop: every pronunciation of \<open>word\<close> is normalised and the lowercased word
  appended under it.
\<close>

fun add_prons :: "string \<Rightarrow> pron list \<Rightarrow> phoneme_map \<Rightarrow> py_error + phoneme_map" where
  "add_prons word [] pm = Inr pm"
| "add_prons word (pron # prons) pm =
     (case clean pron of
        Inl e \<Rightarrow> Inl e
      | Inr c \<Rightarrow> add_prons word prons (dict_append c (lower word) pm))"

text \<open>
  The outer loop over \<^verbatim>\<open>enumerate(cmu_dict.items())\<close>. The result is the list of the
  values emitted on \<^verbatim>\<open>progress\<close> and either the map emitted on \<^verbatim>\<open>finished\<close> or the
  exception that ended the run.
\<close>

fun run_loop :: "(real \<Rightarrow> real) \<Rightarrow> nat \<Rightarrow> nat \<Rightarrow> cmu_dict \<Rightarrow> phoneme_map
    \<Rightarrow> int list \<times> (py_error + phoneme_map)" where
  "run_loop fl tot i [] pm = ([], Inr pm)"
| "run_loop fl tot i ((word, prons) # rest) pm =
     (case add_prons word prons pm of
        Inl e \<Rightarrow> ([percent fl i tot], Inl e)
      | Inr pm' \<Rightarrow>
          (case run_loop fl tot (Suc i) rest pm' of
             (es, r) \<Rightarrow> (percent fl i tot # es, r)))"

definition run :: "(real \<Rightarrow> real) \<Rightarrow> cmu_dict \<Rightarrow> int list \<times> (py_error + phoneme_map)" where
  "run fl cmu = run_loop fl (length cmu) 0 cmu []"

definition progress :: "(real \<Rightarrow> real) \<Rightarrow> cmu_dict \<Rightarrow> int list" where
  "progress fl cmu = fst (run fl cmu)"

subsection \<open>HomophoneWorker\<close>

text \<open>
  The worker's fields. The window passes its own \<^verbatim>\<open>phoneme_map\<close> attribute, which is
  \<^verbatim>\<open>None\<close> until the builder has finished, so the field is an option.
  The constructor lowercases the word.
\<close>

record homophone_worker =
  word :: string
  phoneme_map :: "phoneme_map option"
  accuracy :: int
  min_zipf :: real
  max_results :: int
  use_freq_filter :: bool

definition HomophoneWorker :: "string \<Rightarrow> phoneme_map option \<Rightarrow> int \<Rightarrow> real \<Rightarrow> int \<Rightarrow> bool
    \<Rightarrow> homophone_worker" where
  "HomophoneWorker w pm acc mz mr uf =
     \<lparr>word = lower w, phoneme_map = pm, accuracy = acc, min_zipf = mz,
      max_results = mr, use_freq_filter = uf\<rparr>"

text \<open>The first loop of \<^verbatim>\<open>process\<close>: the normalised pronunciations of the query.\<close>

fun target_sequences :: "pron list \<Rightarrow> py_error + pron list" where
  "target_sequences [] = Inr []"
| "target_sequences (pron # prons) =
     (case clean pron of
        Inl e \<Rightarrow> Inl e
      | Inr c \<Rightarrow> (case target_sequences prons of Inl e \<Rightarrow> Inl e | Inr cs \<Rightarrow> Inr (c # cs)))"

text \<open>
  The scan. The state is the set \<^verbatim>\<open>candidates\<close> together with a ghost list \<open>hits\<close> of
  the keys at which the test \<^verbatim>\<open>score >= self.accuracy\<close> succeeded: the matched
  sequences, which the code does not store.
\<close>

fun scan_map :: "(string \<Rightarrow> string \<Rightarrow> int) \<Rightarrow> int \<Rightarrow> phoneme_map \<Rightarrow> pron \<Rightarrow> pron list
    \<Rightarrow> pron list \<times> string set \<Rightarrow> pron list \<times> string set" where
  "scan_map ratio acc pm seq [] st = st"
| "scan_map ratio acc pm seq (candidate_seq # rest) (hits, candidates) =
     scan_map ratio acc pm seq rest
       (if ratio (join '' '' seq) (join '' '' candidate_seq) \<ge> acc
        then (hits @ [candidate_seq], candidates \<union> set (dict_get pm candidate_seq))
        else (hits, candidates))"

fun scan_all :: "(string \<Rightarrow> string \<Rightarrow> int) \<Rightarrow> int \<Rightarrow> phoneme_map \<Rightarrow> pron list
    \<Rightarrow> pron list \<times> string set \<Rightarrow> pron list \<times> string set" where
  "scan_all ratio acc pm [] st = st"
| "scan_all ratio acc pm (seq # seqs) st =
     scan_all ratio acc pm seqs (scan_map ratio acc pm seq (map fst pm) st)"

definition matched_sequences :: "(string \<Rightarrow> string \<Rightarrow> int) \<Rightarrow> int \<Rightarrow> phoneme_map \<Rightarrow> pron list
    \<Rightarrow> pron set" where
  "matched_sequences ratio acc pm seqs = set (fst (scan_all ratio acc pm seqs ([], {})))"

definition candidates_of :: "(string \<Rightarrow> string \<Rightarrow> int) \<Rightarrow> int \<Rightarrow> phoneme_map \<Rightarrow> pron list
    \<Rightarrow> string set" where
  "candidates_of ratio acc pm seqs = snd (scan_all ratio acc pm seqs ([], {}))"

text \<open>
  The loop \<^verbatim>\<open>for word in candidates\<close>, over the candidates in the order \<open>ws\<close> in which
  the set yields them.
\<close>

fun valid_words :: "homophone_worker \<Rightarrow> (string \<Rightarrow> real) \<Rightarrow> string list \<Rightarrow> string list" where
  "valid_words W zipf [] = []"
| "valid_words W zipf (w # ws) =
     (if w = word W then valid_words W zipf ws
      else if use_freq_filter W then
        (if zipf w \<ge> min_zipf W then w # valid_words W zipf ws else valid_words W zipf ws)
      else w # valid_words W zipf ws)"

text \<open>
  \<^verbatim>\<open>sorted(unique, key=lambda w: (-zipf_frequency(w, 'en'), w))\<close> and the slice. Python
  compares the key tuples lexicographically and the strings by code point.
\<close>

definition sort_words :: "(string \<Rightarrow> real) \<Rightarrow> string list \<Rightarrow> string list" where
  "sort_words zipf unique = sort_key (\<lambda>w. (- zipf w, w)) unique"

definition limit :: "int \<Rightarrow> string list \<Rightarrow> string list" where
  "limit mr sorted_words = (if mr > 0 then take (nat mr) sorted_words else sorted_words)"

text \<open>
  A Python set yields its elements in an order the language does not fix: \<open>xs\<close> is an
  iteration of the set \<open>S\<close> when it lists every element once.
\<close>

definition iteration_of :: "'a list \<Rightarrow> 'a set \<Rightarrow> bool" where
  "iteration_of xs S \<longleftrightarrow> set xs = S \<and> distinct xs"

text \<open>
  \<^verbatim>\<open>process\<close> as a relation between the worker and the value it emits on \<^verbatim>\<open>finished\<close>
  (or the exception that ends it), for every iteration order of its two sets.
\<close>

inductive process_emits :: "cmu_dict \<Rightarrow> (string \<Rightarrow> string \<Rightarrow> int) \<Rightarrow> (string \<Rightarrow> real)
    \<Rightarrow> homophone_worker \<Rightarrow> py_error + string list \<Rightarrow> bool"
  for cmu ratio zipf W where
  no_prons: "cmu_get cmu (word W) = [] \<Longrightarrow> process_emits cmu ratio zipf W (Inr [])"
| clean_raises: "cmu_get cmu (word W) \<noteq> [] \<Longrightarrow>
     target_sequences (cmu_get cmu (word W)) = Inl e \<Longrightarrow>
     process_emits cmu ratio zipf W (Inl e)"
| no_map: "cmu_get cmu (word W) \<noteq> [] \<Longrightarrow>
     target_sequences (cmu_get cmu (word W)) = Inr seqs \<Longrightarrow>
     phoneme_map W = None \<Longrightarrow>
     process_emits cmu ratio zipf W (Inl TypeError)"
| ranked: "cmu_get cmu (word W) \<noteq> [] \<Longrightarrow>
     target_sequences (cmu_get cmu (word W)) = Inr seqs \<Longrightarrow>
     phoneme_map W = Some pm \<Longrightarrow>
     iteration_of ws (candidates_of ratio (accuracy W) pm seqs) \<Longrightarrow>
     iteration_of unique (set (valid_words W zipf ws)) \<Longrightarrow>
     process_emits cmu ratio zipf W (Inr (limit (max_results W) (sort_words zipf unique)))"

text \<open>
  \<^verbatim>\<open>process\<close> as a function: the same steps with one iteration order fixed, the sorted
  one.
\<close>

definition process :: "cmu_dict \<Rightarrow> (string \<Rightarrow> string \<Rightarrow> int) \<Rightarrow> (string \<Rightarrow> real)
    \<Rightarrow> homophone_worker \<Rightarrow> py_error + string list" where
  "process cmu ratio zipf W =
     (let target_prons = cmu_get cmu (word W) in
      if target_prons = [] then Inr []
      else
        (case target_sequences target_prons of
           Inl e \<Rightarrow> Inl e
         | Inr seqs \<Rightarrow>
             (case phoneme_map W of
                None \<Rightarrow> Inl TypeError
              | Some pm \<Rightarrow>
                  (let candidates = candidates_of ratio (accuracy W) pm seqs;
                       valid = valid_words W zipf (sorted_list_of_set candidates);
                       unique = sorted_list_of_set (set valid)
                   in Inr (limit (max_results W) (sort_words zipf unique))))))"

subsection \<open>MainWindow\<close>

text \<open>
  The part of the window that \<^verbatim>\<open>start_search\<close> and \<^verbatim>\<open>on_phoneme_ready\<close> read and write.
  \<^verbatim>\<open>start_search\<close> returns the window and the worker it started, if any.
\<close>

record main_window =
  window_phoneme_map :: "phoneme_map option"
  is_ready :: bool
  input_text :: string
  accuracy_slider :: int
  freq_slider :: int
  result_limit_slider :: int
  unlimited_checked :: bool
  results_list :: "string list"

definition new_window :: main_window where
  "new_window =
     \<lparr>window_phoneme_map = None, is_ready = False, input_text = [], accuracy_slider = 90,
      freq_slider = 2, result_limit_slider = 10, unlimited_checked = False,
      results_list = []\<rparr>"

definition on_phoneme_ready :: "main_window \<Rightarrow> phoneme_map \<Rightarrow> main_window" where
  "on_phoneme_ready mw pm =
     mw\<lparr>window_phoneme_map := Some pm, is_ready := True,
        results_list := results_list mw @ [''Ready! Enter a word to begin'']\<rparr>"

definition start_search :: "main_window \<Rightarrow> main_window \<times> homophone_worker option" where
  "start_search mw =
     (let w = lower (strip (input_text mw)) in
      if w = [] \<or> \<not> is_ready mw then (mw, None)
      else
        (let acc = accuracy_slider mw;
             mz = real_of_int (freq_slider mw);
             mr = (if \<not> unlimited_checked mw then result_limit_slider mw else 0);
             uf = \<not> unlimited_checked mw
         in (mw\<lparr>results_list := [''Searching...'']\<rparr>,
             Some (HomophoneWorker w (window_phoneme_map mw) acc mz mr uf))))"

subsection \<open>Notions used in the statements\<close>

text \<open>
  How often the store gives the word \<open>w\<close> (after lowercasing) a pronunciation that
  normalises to the key \<open>k\<close>.
\<close>

definition variant_count :: "cmu_dict \<Rightarrow> string \<Rightarrow> pron \<Rightarrow> nat" where
  "variant_count cmu w k =
     sum_list (map (\<lambda>(w', prons).
       if lower w' = w then length (filter (\<lambda>p. clean p = Inr k) prons) else 0) cmu)"

text \<open>
  The words that survive the loop over the candidates: not the query word, and frequent
  enough when the filter is on.
\<close>

definition survivors :: "homophone_worker \<Rightarrow> (string \<Rightarrow> real) \<Rightarrow> string set \<Rightarrow> string set" where
  "survivors W zipf C =
     {w \<in> C. w \<noteq> word W \<and> (use_freq_filter W \<longrightarrow> min_zipf W \<le> zipf w)}"

text \<open>Descending frequency, ties broken by ascending lexicographic order.\<close>

definition ranks_before :: "(string \<Rightarrow> real) \<Rightarrow> string \<Rightarrow> string \<Rightarrow> bool" where
  "ranks_before zipf a b \<longleftrightarrow> zipf b < zipf a \<or> (zipf a = zipf b \<and> a < b)"

text \<open>
  \<^verbatim>\<open>zipf_frequency(w, 'en')\<close> of wordfreq over its word list: a word that the list does
  not have gets the function's \<^verbatim>\<open>minimum\<close>, which is 0 by default; the code has no other
  notion of an absent frequency.
\<close>

definition zipf_frequency :: "(string \<rightharpoonup> real) \<Rightarrow> string \<Rightarrow> real" where
  "zipf_frequency wordlist w = (case wordlist w of None \<Rightarrow> 0 | Some z \<Rightarrow> z)"

subsection \<open>A small store\<close>

text \<open>
  Three entries of the CMU dictionary; \<^verbatim>\<open>the\<close> has two pronunciations that differ in
  stress only. \<open>example_map\<close> is the map the builder makes of them. \<open>exact_ratio\<close> scores
  equal strings 100 and all others 0, and \<open>exact\<close> is arithmetic without rounding.
\<close>

definition example_cmu :: cmu_dict where
  "example_cmu =
     [(''night'', [[''N'', ''AY1'', ''T'']]),
      (''knight'', [[''N'', ''AY1'', ''T'']]),
      (''the'', [[''DH'', ''AH0''], [''DH'', ''AH1''], [''DH'', ''IY0'']])]"

definition example_map :: phoneme_map where
  "example_map =
     [([''N'', ''AY'', ''T''], [''night'', ''knight'']),
      ([''DH'', ''AH''], [''the'', ''the'']),
      ([''DH'', ''IY''], [''the''])]"

definition example_wordlist :: "string \<rightharpoonup> real" where
  "example_wordlist = [''night'' \<mapsto> 5.2, ''the'' \<mapsto> 7.7]"

definition exact_ratio :: "string \<Rightarrow> string \<Rightarrow> int" where
  "exact_ratio a b = (if a = b then 100 else 0)"

definition exact :: "real \<Rightarrow> real" where
  "exact x = x"

section \<open>Properties\<close>

subsection \<open>The scan\<close>

lemma scan_map_fst:
  "set (fst (scan_map ratio acc pm seq cs st)) =
     set (fst st) \<union> {c \<in> set cs. acc \<le> ratio (join '' '' seq) (join '' '' c)}"
  by (induction ratio acc pm seq cs st rule: scan_map.induct) auto

lemma scan_map_snd:
  "snd (scan_map ratio acc pm seq cs st) =
     snd st \<union>
     (\<Union>c \<in> {c \<in> set cs. acc \<le> ratio (join '' '' seq) (join '' '' c)}. set (dict_get pm c))"
  by (induction ratio acc pm seq cs st rule: scan_map.induct) auto

lemma scan_all_fst:
  "set (fst (scan_all ratio acc pm seqs st)) =
     set (fst st) \<union>
     {c \<in> fst ` set pm. \<exists>seq \<in> set seqs. acc \<le> ratio (join '' '' seq) (join '' '' c)}"
  by (induction ratio acc pm seqs st rule: scan_all.induct) (auto simp: scan_map_fst)

lemma scan_all_snd:
  "snd (scan_all ratio acc pm seqs st) =
     snd st \<union>
     (\<Union>c \<in> {c \<in> fst ` set pm.
              \<exists>seq \<in> set seqs. acc \<le> ratio (join '' '' seq) (join '' '' c)}.
        set (dict_get pm c))"
  by (induction ratio acc pm seqs st rule: scan_all.induct) (auto simp: scan_map_snd)

lemma matched_sequences_eq:
  "matched_sequences ratio acc pm seqs =
     {c \<in> fst ` set pm. \<exists>seq \<in> set seqs. acc \<le> ratio (join '' '' seq) (join '' '' c)}"
  by (simp add: matched_sequences_def scan_all_fst)

lemma candidates_of_eq:
  "candidates_of ratio acc pm seqs =
     (\<Union>c \<in> matched_sequences ratio acc pm seqs. set (dict_get pm c))"
  by (simp add: candidates_of_def scan_all_snd matched_sequences_eq)

lemma finite_matched: "finite (matched_sequences ratio acc pm seqs)"
  by (simp add: matched_sequences_eq)

lemma finite_candidates: "finite (candidates_of ratio acc pm seqs)"
  by (simp add: candidates_of_eq finite_matched)

text \<open>
  C4. Raising the threshold from \<open>t1\<close> to \<open>t2\<close> can only remove matched sequences: the
  set matched at \<open>t2\<close> is a subset of the set matched at \<open>t1\<close>, and so is no larger.
\<close>

theorem threshold_monotone:
  "t1 \<le> t2 \<Longrightarrow>
   matched_sequences ratio t2 pm seqs \<subseteq> matched_sequences ratio t1 pm seqs \<and>
   card (matched_sequences ratio t2 pm seqs) \<le> card (matched_sequences ratio t1 pm seqs)"
proof -
  assume le: "t1 \<le> t2"
  have sub: "matched_sequences ratio t2 pm seqs \<subseteq> matched_sequences ratio t1 pm seqs"
    using le by (fastforce simp: matched_sequences_eq intro: order_trans)
  from card_mono[OF finite_matched sub] sub show ?thesis by simp
qed

theorem threshold_monotone_witness:
  "(70::int) \<le> 100 \<and>
   matched_sequences exact_ratio 100 example_map [[''N'', ''AY'', ''T'']]
     \<subseteq> matched_sequences exact_ratio 70 example_map [[''N'', ''AY'', ''T'']] \<and>
   card (matched_sequences exact_ratio 100 example_map [[''N'', ''AY'', ''T'']])
     \<le> card (matched_sequences exact_ratio 70 example_map [[''N'', ''AY'', ''T'']])"
  using threshold_monotone [of 70 100 exact_ratio example_map "[[''N'', ''AY'', ''T'']]"]
  by simp

subsection \<open>The guard in front of the search\<close>

text \<open>
  C8, as the code has it. A search issued before the builder has finished
  (\<open>is_ready\<close> is false) is ignored: \<^verbatim>\<open>start_search\<close> returns at once, leaves the window
  as it was, shows no message and starts no worker. Nothing is raised or reported.
\<close>

theorem start_search_not_ready:
  "\<not> is_ready mw \<Longrightarrow> start_search mw = (mw, None)"
  by (simp add: start_search_def Let_def)

theorem start_search_not_ready_witness:
  "\<not> is_ready (new_window\<lparr>input_text := ''night''\<rparr>) \<and>
   start_search (new_window\<lparr>input_text := ''night''\<rparr>) =
     (new_window\<lparr>input_text := ''night''\<rparr>, None)"
  using start_search_not_ready [of "new_window\<lparr>input_text := ''night''\<rparr>"]
  by (simp add: new_window_def)

text \<open>
  The claim of C8 asks for a rejection with an error instead of a silent drop. At a new
  window with the text \<^verbatim>\<open>night\<close> typed in, the search is dropped silently: the list of
  results, where the window shows its messages, is still empty, and no worker exists.
\<close>

theorem start_search_silent_counterexample:
  "\<not> is_ready (new_window\<lparr>input_text := ''night''\<rparr>) \<and>
   start_search (new_window\<lparr>input_text := ''night''\<rparr>) =
     (new_window\<lparr>input_text := ''night''\<rparr>, None) \<and>
   results_list (fst (start_search (new_window\<lparr>input_text := ''night''\<rparr>))) = []"
  by (simp add: start_search_def new_window_def Let_def)

subsection \<open>The built map\<close>

lemma dict_get_append:
  "dict_get (dict_append k v d) k' = (if k = k' then dict_get d k' @ [v] else dict_get d k')"
  by (induction k v d rule: dict_append.induct) (auto simp: dict_get_def)

lemma count_add_prons:
  "add_prons w prons pm = Inr pm' \<Longrightarrow>
   count_list (dict_get pm' k) x =
     count_list (dict_get pm k) x +
     (if lower w = x then length (filter (\<lambda>p. clean p = Inr k) prons) else 0)"
  by (induction prons arbitrary: pm) (auto simp: dict_get_append split: sum.splits)

lemma count_run_loop:
  "run_loop fl tot i cmu pm = (es, Inr pm') \<Longrightarrow>
   count_list (dict_get pm' k) x = count_list (dict_get pm k) x + variant_count cmu x k"
proof (induction cmu arbitrary: pm i es)
  case Nil
  then show ?case by (simp add: variant_count_def)
next
  case (Cons a cmu)
  obtain w prons where a: "a = (w, prons)" by (cases a)
  from Cons.prems a obtain pm1 es1 where
    1: "add_prons w prons pm = Inr pm1" and
    2: "run_loop fl tot (Suc i) cmu pm1 = (es1, Inr pm')"
    by (auto split: sum.splits prod.splits)
  show ?case using Cons.IH[OF 2] count_add_prons[OF 1, of k x] a
    by (simp add: variant_count_def)
qed

lemma count_run:
  "run fl cmu = (es, Inr pm) \<Longrightarrow> count_list (dict_get pm k) x = variant_count cmu x k"
  using count_run_loop[of fl "length cmu" 0 cmu "[]" es pm k x]
  by (simp add: run_def dict_get_def)

lemma distinct_count_list: "distinct xs \<longleftrightarrow> (\<forall>x. count_list xs x \<le> 1)"
proof (induction xs)
  case Nil
  then show ?case by simp
next
  case (Cons a xs)
  show ?case
  proof
    assume d: "distinct (a # xs)"
    then have "count_list xs a = 0" by (simp add: count_list_0_iff)
    with d Cons show "\<forall>x. count_list (a # xs) x \<le> 1" by auto
  next
    assume c: "\<forall>x. count_list (a # xs) x \<le> 1"
    then have "count_list (a # xs) a \<le> 1" by blast
    then have "count_list xs a = 0" by simp
    then have na: "a \<notin> set xs" by (simp add: count_list_0_iff)
    have "\<forall>x. count_list xs x \<le> 1"
    proof
      fix x from c have "count_list (a # xs) x \<le> 1" by blast
      then show "count_list xs x \<le> 1" by (simp split: if_splits)
    qed
    with Cons na show "distinct (a # xs)" by simp
  qed
qed

lemma run_example: "run exact example_cmu = ([0, 33, 66], Inr example_map)"
  by (simp add: run_def example_cmu_def example_map_def strip_stress_def isdigit_def
      lower_def lower_char_def isupper_char_def percent_def exact_def py_int_def)

text \<open>
  C7, as the code has it. When the build finishes, a word stands in the list under a key
  once for every pronunciation variant of it (of a store entry that lowercases to it)
  that normalises to that key: \<^verbatim>\<open>append\<close> is unconditional. So the list under a key is
  free of repetitions exactly when no word has two variants normalising to that key.
\<close>

theorem word_count_under_key:
  assumes "run fl cmu = (es, Inr pm)"
  shows "count_list (dict_get pm k) w = variant_count cmu w k \<and>
         (distinct (dict_get pm k) \<longleftrightarrow> (\<forall>x. variant_count cmu x k \<le> 1))"
  using count_run[OF assms] by (simp add: distinct_count_list)

theorem word_count_under_key_witness:
  "run exact example_cmu = ([0, 33, 66], Inr example_map) \<and>
   count_list (dict_get example_map [''N'', ''AY'', ''T'']) ''knight'' =
     variant_count example_cmu ''knight'' [''N'', ''AY'', ''T''] \<and>
   (distinct (dict_get example_map [''N'', ''AY'', ''T'']) \<longleftrightarrow>
     (\<forall>x. variant_count example_cmu x [''N'', ''AY'', ''T''] \<le> 1))"
  using word_count_under_key [OF run_example, of "[''N'', ''AY'', ''T'']" "''knight''"]
    run_example
  by simp

text \<open>
  The claim of C7 fails at the entry \<^verbatim>\<open>the\<close>, whose pronunciations \<^verbatim>\<open>DH AH0\<close> and
  \<^verbatim>\<open>DH AH1\<close> normalise to the same key: the built map lists the word twice there.
\<close>

theorem word_twice_counterexample:
  "snd (run exact example_cmu) = Inr example_map \<and>
   dict_get example_map [''DH'', ''AH''] = [''the'', ''the'']"
  by (simp add: run_example) (simp add: example_map_def dict_get_def)

subsection \<open>The progress signal\<close>

lemma py_int_mono: "r \<le> s \<Longrightarrow> py_int r \<le> py_int s"
proof -
  assume le: "r \<le> s"
  consider "0 \<le> r" | "r < 0" "s < 0" | "r < 0" "0 \<le> s" by linarith
  then show ?thesis
  proof cases
    case 1
    then show ?thesis using le by (simp add: py_int_def floor_mono)
  next
    case 2
    then show ?thesis using le by (simp add: py_int_def ceiling_mono)
  next
    case 3
    have "\<lceil>r\<rceil> \<le> 0" using 3(1) by (simp add: ceiling_le_iff)
    moreover have "0 \<le> \<lfloor>s\<rfloor>" using 3(2) by simp
    ultimately have "\<lceil>r\<rceil> \<le> \<lfloor>s\<rfloor>" by linarith
    then show ?thesis using 3 by (simp add: py_int_def)
  qed
qed

lemma percent_mono:
  assumes "float_rounding fl" "i \<le> j"
  shows "percent fl i tot \<le> percent fl j tot"
proof -
  from assms(1) have m: "mono fl" by (simp add: float_rounding_def)
  have "real i / real tot \<le> real j / real tot"
    using assms(2) by (simp add: divide_right_mono)
  then have "fl (real i / real tot) \<le> fl (real j / real tot)" by (rule monoD[OF m])
  then have "fl (real i / real tot) * 100 \<le> fl (real j / real tot) * 100" by simp
  then have "fl (fl (real i / real tot) * 100) \<le> fl (fl (real j / real tot) * 100)"
    by (rule monoD[OF m])
  then show ?thesis unfolding percent_def by (rule py_int_mono)
qed

lemma percent_lower:
  assumes "float_rounding fl"
  shows "0 \<le> percent fl i tot"
proof -
  from assms have m: "mono fl" and z: "fl 0 = 0" by (simp_all add: float_rounding_def)
  have "fl 0 \<le> fl (real i / real tot)" by (rule monoD[OF m]) simp
  then have "0 \<le> fl (real i / real tot) * 100" using z by simp
  then have "fl 0 \<le> fl (fl (real i / real tot) * 100)" by (rule monoD[OF m])
  then show ?thesis using z by (simp add: percent_def py_int_def)
qed

lemma percent_upper:
  assumes "float_rounding fl" "i < tot" "tot \<le> 2 ^ 53"
  shows "percent fl i tot < 100"
proof -
  from assms(1) have m: "mono fl" and z: "fl 0 = 0"
    and p: "fl (1 - 1 / 2 ^ 53) = 1 - 1 / 2 ^ 53"
    and q: "fl ((1 - 1 / 2 ^ 53) * 100) < 100"
    by (simp_all add: float_rounding_def)
  have tpos: "0 < real tot" using assms(2) by simp
  have "real i + 1 \<le> real tot" using assms(2) by linarith
  then have "real i / real tot \<le> (real tot - 1) / real tot"
    using tpos by (simp add: divide_right_mono)
  also have "\<dots> = 1 - 1 / real tot" using tpos by (simp add: diff_divide_distrib)
  also have "\<dots> \<le> 1 - 1 / 2 ^ 53"
  proof -
    have "real tot \<le> 2 ^ 53" using assms(3) by (metis of_nat_le_iff of_nat_numeral of_nat_power)
    then have "1 / 2 ^ 53 \<le> 1 / real tot" using tpos by (simp add: frac_le)
    then show ?thesis by simp
  qed
  finally have "fl (real i / real tot) \<le> fl (1 - 1 / 2 ^ 53)" using m by (simp add: monoD)
  then have "fl (real i / real tot) * 100 \<le> (1 - 1 / 2 ^ 53) * 100" using p by simp
  then have "fl (fl (real i / real tot) * 100) \<le> fl ((1 - 1 / 2 ^ 53) * 100)"
    by (rule monoD[OF m])
  then have lt: "fl (fl (real i / real tot) * 100) < 100" using q by simp
  have "0 \<le> percent fl i tot" using assms(1) by (rule percent_lower)
  have nn: "0 \<le> fl (fl (real i / real tot) * 100)"
  proof -
    have "fl 0 \<le> fl (real i / real tot)" by (rule monoD[OF m]) simp
    then have "0 \<le> fl (real i / real tot) * 100" using z by simp
    then have "fl 0 \<le> fl (fl (real i / real tot) * 100)" by (rule monoD[OF m])
    then show ?thesis using z by simp
  qed
  show ?thesis using lt nn by (simp add: percent_def py_int_def floor_less_iff)
qed

lemma float_rounding_exact: "float_rounding exact"
  by (simp add: float_rounding_def exact_def mono_def)


lemma run_loop_Cons_Inr:
  "add_prons w prons pm = Inr pm1 \<Longrightarrow>
   run_loop fl tot i ((w, prons) # cmu) pm =
     (percent fl i tot # fst (run_loop fl tot (Suc i) cmu pm1),
      snd (run_loop fl tot (Suc i) cmu pm1))"
  by (simp split: prod.splits)

lemma progress_run_loop:
  "\<exists>m \<le> length cmu.
     fst (run_loop fl tot i cmu pm) = map (\<lambda>j. percent fl j tot) [i ..< i + m] \<and>
     (\<forall>pm'. snd (run_loop fl tot i cmu pm) = Inr pm' \<longrightarrow> m = length cmu)"
proof (induction cmu arbitrary: i pm)
  case Nil
  show ?case by simp
next
  case (Cons a cmu)
  obtain w prons where a: "a = (w, prons)" by (cases a)
  show ?case
  proof (cases "add_prons w prons pm")
    case (Inl e)
    have "fst (run_loop fl tot i (a # cmu) pm) = map (\<lambda>j. percent fl j tot) [i ..< i + 1]"
      using a Inl by simp
    moreover have "\<forall>pm'. snd (run_loop fl tot i (a # cmu) pm) = Inr pm' \<longrightarrow> 1 = length (a # cmu)"
      using a Inl by simp
    ultimately show ?thesis by (intro exI[of _ 1]) simp
  next
    case (Inr pm1)
    from Cons.IH[of "Suc i" pm1] obtain m where m: "m \<le> length cmu"
      "fst (run_loop fl tot (Suc i) cmu pm1) = map (\<lambda>j. percent fl j tot) [Suc i ..< Suc i + m]"
      "\<forall>pm'. snd (run_loop fl tot (Suc i) cmu pm1) = Inr pm' \<longrightarrow> m = length cmu"
      by blast
    have "fst (run_loop fl tot i (a # cmu) pm) =
            percent fl i tot # map (\<lambda>j. percent fl j tot) [Suc i ..< Suc i + m]"
      unfolding a run_loop_Cons_Inr[OF Inr] fst_conv m(2) ..
    also have "\<dots> = map (\<lambda>j. percent fl j tot) [i ..< i + Suc m]"
    proof -
      have "[i ..< i + Suc m] = i # [Suc i ..< i + Suc m]" by (rule upt_conv_Cons) simp
      moreover have "i + Suc m = Suc i + m" by simp
      ultimately have "[i ..< i + Suc m] = i # [Suc i ..< Suc i + m]" by metis
      then show ?thesis by (simp only: list.map)
    qed
    finally have 1: "fst (run_loop fl tot i (a # cmu) pm) =
        map (\<lambda>j. percent fl j tot) [i ..< i + Suc m]" .
    have 2: "\<forall>pm'. snd (run_loop fl tot i (a # cmu) pm) = Inr pm' \<longrightarrow> Suc m = length (a # cmu)"
      unfolding a run_loop_Cons_Inr[OF Inr] snd_conv using m(3) by simp
    from 1 2 m(1) show ?thesis by (intro exI[of _ "Suc m"]) simp
  qed
qed

lemma progress_eq:
  "\<exists>m \<le> length cmu.
     progress fl cmu = map (\<lambda>j. percent fl j (length cmu)) [0 ..< m] \<and>
     (\<forall>pm. snd (run fl cmu) = Inr pm \<longrightarrow> m = length cmu)"
  using progress_run_loop[of cmu fl "length cmu" 0 "[]"]
  by (simp add: progress_def run_def)

text \<open>
  C5, as the code has it. The value emitted before entry \<open>i\<close> of \<open>total\<close> is
  \<^verbatim>\<open>int((i/total)*100)\<close> with \<open>i < total\<close>. With float rounding as described and a store of
  at most \<open>2^53\<close> entries, every emitted value is an integer from 0 to 99, the values
  never decrease, and a finished build has emitted one value per entry. The value 100
  is never emitted, also not last; completion is the separate signal \<^verbatim>\<open>finished\<close>. An
  empty store emits no value.
\<close>

theorem progress_below_100:
  assumes "float_rounding fl" and "length cmu \<le> 2 ^ 53"
  shows "(\<forall>e \<in> set (progress fl cmu). 0 \<le> e \<and> e < 100) \<and>
         sorted (progress fl cmu) \<and>
         (\<forall>pm. snd (run fl cmu) = Inr pm \<longrightarrow> length (progress fl cmu) = length cmu)"
proof -
  from progress_eq[of cmu fl] obtain m where m: "m \<le> length cmu"
    "progress fl cmu = map (\<lambda>j. percent fl j (length cmu)) [0 ..< m]"
    "\<forall>pm. snd (run fl cmu) = Inr pm \<longrightarrow> m = length cmu"
    by blast
  have range: "\<forall>e \<in> set (progress fl cmu). 0 \<le> e \<and> e < 100"
  proof
    fix e assume "e \<in> set (progress fl cmu)"
    then obtain j where j: "j < m" "e = percent fl j (length cmu)" using m(2) by auto
    from j(1) m(1) have "j < length cmu" by simp
    then show "0 \<le> e \<and> e < 100"
      using j(2) percent_lower[OF assms(1)] percent_upper[OF assms(1) _ assms(2)] by simp
  qed
  have "sorted_wrt (\<lambda>i j. percent fl i (length cmu) \<le> percent fl j (length cmu)) [0 ..< m]"
    by (rule sorted_wrt_mono_rel[of _ "(\<le>)"]) (simp_all add: percent_mono[OF assms(1)])
  then have srt: "sorted (progress fl cmu)" by (simp add: m(2) sorted_map)
  have len: "\<forall>pm. snd (run fl cmu) = Inr pm \<longrightarrow> length (progress fl cmu) = length cmu"
    using m(2,3) by simp
  from range srt len show ?thesis by blast
qed

theorem progress_below_100_witness:
  "float_rounding exact \<and> length example_cmu \<le> 2 ^ 53 \<and>
   progress exact example_cmu = [0, 33, 66] \<and>
   sorted (progress exact example_cmu) \<and>
   length (progress exact example_cmu) = length example_cmu"
proof -
  have l: "length example_cmu \<le> 2 ^ 53" by (simp add: example_cmu_def)
  have p: "progress exact example_cmu = [0, 33, 66]" by (simp add: progress_def run_example)
  have r: "snd (run exact example_cmu) = Inr example_map" by (simp add: run_example)
  from progress_below_100 [OF float_rounding_exact l] r float_rounding_exact l p
  show ?thesis by blast
qed

text \<open>
  The claim of C5 fails in its last part. On a store of two entries the build finishes
  having emitted 0 and 50, so the last value is 50 (binary64 computes \<open>0/2\<close>, \<open>1/2\<close> and
  \<open>0.5 * 100\<close> without rounding, as \<open>exact\<close> does).
\<close>

theorem progress_last_counterexample:
  "run exact [(''night'', [[''N'', ''AY1'', ''T'']]), (''knight'', [[''N'', ''AY1'', ''T'']])] =
     ([0, 50], Inr [([''N'', ''AY'', ''T''], [''night'', ''knight''])]) \<and>
   last (progress exact
     [(''night'', [[''N'', ''AY1'', ''T'']]), (''knight'', [[''N'', ''AY1'', ''T'']])]) = 50"
  by (simp add: progress_def run_def strip_stress_def isdigit_def
      lower_def lower_char_def isupper_char_def percent_def exact_def py_int_def)

subsection \<open>Filtering, sorting and the two views of the worker\<close>

lemma set_valid_words: "set (valid_words W zipf ws) = survivors W zipf (set ws)"
  by (induction ws) (auto simp: survivors_def)

lemma distinct_valid_words: "distinct ws \<Longrightarrow> distinct (valid_words W zipf ws)"
  by (induction ws) (auto simp: set_valid_words survivors_def)

lemma inj_sort_key: "inj (\<lambda>w::string. (- zipf w :: real, w))"
  by (simp add: inj_on_def)

lemma set_sort_words: "set (sort_words zipf us) = set us"
  by (simp add: sort_words_def)

lemma distinct_sort_words: "distinct (sort_words zipf us) = distinct us"
  by (simp add: sort_words_def)

lemma length_sort_words: "length (sort_words zipf us) = length us"
  by (simp add: sort_words_def)

lemma sort_words_unique:
  assumes "distinct us" "distinct vs" "set us = set vs"
  shows "sort_words zipf us = sort_words zipf vs"
proof -
  let ?k = "\<lambda>w::string. (- zipf w :: real, w)"
  have "map ?k (sort_key ?k us) = map ?k (sort_key ?k vs)"
  proof (rule sorted_distinct_set_unique)
    show "sorted (map ?k (sort_key ?k us))" by (rule sorted_sort_key)
    show "sorted (map ?k (sort_key ?k vs))" by (rule sorted_sort_key)
    show "distinct (map ?k (sort_key ?k us))"
      using assms(1) by (simp add: distinct_map inj_on_def)
    show "distinct (map ?k (sort_key ?k vs))"
      using assms(2) by (simp add: distinct_map inj_on_def)
    show "set (map ?k (sort_key ?k us)) = set (map ?k (sort_key ?k vs))"
      using assms(3) by simp
  qed
  then have "sort_key ?k us = sort_key ?k vs"
    using inj_sort_key[of zipf] by (simp add: inj_map_eq_map)
  then show ?thesis by (simp add: sort_words_def)
qed

lemma ranks_before_key:
  "ranks_before zipf a b \<longleftrightarrow> (- zipf a, a) < (- zipf b, b)"
  by (auto simp: ranks_before_def less_prod_def)

lemma sorted_wrt_sort_words:
  assumes "distinct us"
  shows "sorted_wrt (ranks_before zipf) (sort_words zipf us)"
proof -
  let ?k = "\<lambda>w::string. (- zipf w :: real, w)"
  have "sorted (map ?k (sort_key ?k us))" by (rule sorted_sort_key)
  moreover have "distinct (map ?k (sort_key ?k us))"
    using assms by (simp add: distinct_map inj_on_def)
  ultimately have "sorted_wrt (<) (map ?k (sort_key ?k us))"
    by (simp add: strict_sorted_iff)
  moreover have "(\<lambda>x y. ?k x < ?k y) = ranks_before zipf"
    by (intro ext) (simp add: ranks_before_key)
  ultimately show ?thesis
    by (simp only: sorted_wrt_map sort_words_def)
qed

lemma iteration_sorted_list: "finite S \<Longrightarrow> iteration_of (sorted_list_of_set S) S"
  by (simp add: iteration_of_def)

lemma process_emits_process: "process_emits cmu ratio zipf W (process cmu ratio zipf W)"
proof (cases "cmu_get cmu (word W) = []")
  case True
  then show ?thesis by (simp add: process_def process_emits.no_prons)
next
  case ne: False
  show ?thesis
  proof (cases "target_sequences (cmu_get cmu (word W))")
    case (Inl e)
    with ne show ?thesis by (simp add: process_def process_emits.clean_raises)
  next
    case (Inr seqs)
    show ?thesis
    proof (cases "phoneme_map W")
      case None
      with ne Inr show ?thesis by (simp add: process_def process_emits.no_map)
    next
      case (Some pm)
      let ?C = "candidates_of ratio (accuracy W) pm seqs"
      let ?ws = "sorted_list_of_set ?C"
      let ?us = "sorted_list_of_set (set (valid_words W zipf ?ws))"
      have 1: "iteration_of ?ws ?C" by (rule iteration_sorted_list[OF finite_candidates])
      have 2: "iteration_of ?us (set (valid_words W zipf ?ws))"
        by (rule iteration_sorted_list) simp
      have "process cmu ratio zipf W = Inr (limit (max_results W) (sort_words zipf ?us))"
        using ne Inr Some by (simp add: process_def Let_def)
      then show ?thesis using process_emits.ranked[OF ne Inr Some 1 2] by simp
    qed
  qed
qed

lemma process_emits_unique:
  assumes "process_emits cmu ratio zipf W out"
  shows "out = process cmu ratio zipf W"
  using assms
proof cases
  case no_prons
  then show ?thesis by (simp add: process_def)
next
  case (clean_raises e)
  then show ?thesis by (simp add: process_def)
next
  case (no_map seqs)
  then show ?thesis by (simp add: process_def)
next
  case (ranked seqs pm ws unique)
  let ?C = "candidates_of ratio (accuracy W) pm seqs"
  let ?ws = "sorted_list_of_set ?C"
  let ?us = "sorted_list_of_set (set (valid_words W zipf ?ws))"
  have fin: "finite ?C" by (rule finite_candidates)
  from ranked(5) have ws: "set ws = ?C" by (simp add: iteration_of_def)
  from ranked(6) have us: "set unique = set (valid_words W zipf ws)" "distinct unique"
    by (simp_all add: iteration_of_def)
  have "set ?ws = set ws" using ws fin by simp
  then have "set (valid_words W zipf ?ws) = set (valid_words W zipf ws)"
    by (simp only: set_valid_words)
  then have "set unique = set ?us" using us(1) by simp
  then have "sort_words zipf unique = sort_words zipf ?us"
    using us(2) by (intro sort_words_unique) simp_all
  then show ?thesis using ranked(1-4) by (simp add: process_def Let_def)
qed

lemma process_emits_iff:
  "process_emits cmu ratio zipf W out \<longleftrightarrow> out = process cmu ratio zipf W"
  using process_emits_unique process_emits_process by blast

subsection \<open>The search\<close>

lemma lower_char_idem: "lower_char (lower_char c) = lower_char c"
  by (simp add: lower_char_def isupper_char_def)

lemma lower_idem: "lower (lower s) = lower s"
  by (simp add: lower_def lower_char_idem)

lemma set_limit: "set (limit mr xs) \<subseteq> set xs"
  by (auto simp: limit_def dest: in_set_takeD)

lemma length_limit: "0 < mr \<Longrightarrow> int (length (limit mr xs)) \<le> mr"
  by (simp add: limit_def)

lemma example_candidates:
  "candidates_of exact_ratio 100 example_map [[''N'', ''AY'', ''T'']] = {''night'', ''knight''}"
  by (auto simp: candidates_of_def example_map_def exact_ratio_def dict_get_def)

lemma example_candidates_all:
  "candidates_of exact_ratio 0 example_map [[''N'', ''AY'', ''T'']] = {''night'', ''knight'', ''the''}"
  by (auto simp: candidates_of_def example_map_def exact_ratio_def dict_get_def)

lemma example_candidates_the:
  "candidates_of exact_ratio 100 example_map [[''DH'', ''AH''], [''DH'', ''AH''], [''DH'', ''IY'']] = {''the''}"
  by (auto simp: candidates_of_def example_map_def exact_ratio_def dict_get_def)

lemma example_target_night:
  "cmu_get example_cmu ''night'' = [[''N'', ''AY1'', ''T'']]"
  "target_sequences [[''N'', ''AY1'', ''T'']] = Inr [[''N'', ''AY'', ''T'']]"
  by (simp_all add: cmu_get_def example_cmu_def strip_stress_def isdigit_def)

lemma example_target_the:
  "cmu_get example_cmu ''the'' = [[''DH'', ''AH0''], [''DH'', ''AH1''], [''DH'', ''IY0'']]"
  "target_sequences [[''DH'', ''AH0''], [''DH'', ''AH1''], [''DH'', ''IY0'']] =
     Inr [[''DH'', ''AH''], [''DH'', ''AH''], [''DH'', ''IY'']]"
  by (simp_all add: cmu_get_def example_cmu_def strip_stress_def isdigit_def)

lemma lower_examples:
  "lower ''night'' = ''night''" "lower ''NIGHT'' = ''night''" "lower ''the'' = ''the''"
  "lower ''qwerty'' = ''qwerty''"
  by code_simp+

lemma example_process_night:
  "process example_cmu exact_ratio (zipf_frequency example_wordlist)
     (HomophoneWorker ''night'' (Some example_map) 100 0 10 True) = Inr [''knight'']"
  by code_simp


lemma ranked_form:
  assumes em: "process_emits cmu ratio zipf W (Inr r)"
    and ne: "cmu_get cmu (word W) \<noteq> []"
    and ts: "target_sequences (cmu_get cmu (word W)) = Inr seqs"
    and pm: "phoneme_map W = Some pm"
  shows "\<exists>S. set S = survivors W zipf (candidates_of ratio (accuracy W) pm seqs) \<and>
             sorted_wrt (ranks_before zipf) S \<and> distinct S \<and> r = limit (max_results W) S"
  using em
proof cases
  case no_prons
  with ne show ?thesis by simp
next
  case (ranked seqs' pm' ws unique)
  from ranked(3) ts have s: "seqs' = seqs" by simp
  from ranked(4) pm have p: "pm' = pm" by simp
  from ranked(5) have ws: "set ws = candidates_of ratio (accuracy W) pm seqs"
    by (simp add: iteration_of_def s p)
  from ranked(6) have us: "set unique = set (valid_words W zipf ws)" "distinct unique"
    by (simp_all add: iteration_of_def)
  let ?S = "sort_words zipf unique"
  have "set ?S = survivors W zipf (candidates_of ratio (accuracy W) pm seqs)"
    using us(1) ws by (simp add: set_sort_words set_valid_words)
  moreover have "sorted_wrt (ranks_before zipf) ?S" using us(2) by (rule sorted_wrt_sort_words)
  moreover have "distinct ?S" using us(2) by (simp add: distinct_sort_words)
  ultimately show ?thesis using ranked(1) by blast
qed

text \<open>
  C2. The emitted list is cut from a list \<open>S\<close> that holds exactly the words surviving
  the filter, each once, in the order of descending frequency with ties broken by
  ascending lexicographic order. With a positive cap the result is the first
  \<^verbatim>\<open>max_results\<close> elements of \<open>S\<close>, so it is no longer than the cap; otherwise it is \<open>S\<close>.
\<close>

theorem ranked_and_capped:
  assumes "process_emits cmu ratio zipf W (Inr r)"
    and "cmu_get cmu (word W) \<noteq> []"
    and "target_sequences (cmu_get cmu (word W)) = Inr seqs"
    and "phoneme_map W = Some pm"
  shows "\<exists>S. set S = survivors W zipf (candidates_of ratio (accuracy W) pm seqs) \<and>
             sorted_wrt (ranks_before zipf) S \<and>
             r = (if 0 < max_results W then take (nat (max_results W)) S else S) \<and>
             (0 < max_results W \<longrightarrow> int (length r) \<le> max_results W)"
proof -
  from ranked_form[OF assms] obtain S where
    S: "set S = survivors W zipf (candidates_of ratio (accuracy W) pm seqs)"
       "sorted_wrt (ranks_before zipf) S" "r = limit (max_results W) S"
    by blast
  have "r = (if 0 < max_results W then take (nat (max_results W)) S else S)"
    using S(3) by (simp add: limit_def)
  moreover have "0 < max_results W \<longrightarrow> int (length r) \<le> max_results W"
    using S(3) by (simp add: length_limit)
  ultimately show ?thesis using S(1,2) by blast
qed

theorem ranked_and_capped_witness:
  "process_emits example_cmu exact_ratio (zipf_frequency example_wordlist)
     (HomophoneWorker ''Night'' (Some example_map) 0 2 1 False) (Inr [''the'']) \<and>
   (\<exists>S. set S = survivors (HomophoneWorker ''Night'' (Some example_map) 0 2 1 False)
              (zipf_frequency example_wordlist)
              (candidates_of exact_ratio 0 example_map [[''N'', ''AY'', ''T'']]) \<and>
        sorted_wrt (ranks_before (zipf_frequency example_wordlist)) S \<and>
        [''the''] = take 1 S \<and> length [''the''] \<le> 1)"
proof -
  let ?W = "HomophoneWorker ''Night'' (Some example_map) 0 2 1 False"
  have e: "process_emits example_cmu exact_ratio (zipf_frequency example_wordlist) ?W
      (Inr [''the''])"
    unfolding process_emits_iff by code_simp
  have n: "cmu_get example_cmu (word ?W) \<noteq> []" by code_simp
  have t: "target_sequences (cmu_get example_cmu (word ?W)) = Inr [[''N'', ''AY'', ''T'']]"
    by code_simp
  have p: "phoneme_map ?W = Some example_map" by (simp add: HomophoneWorker_def)
  from ranked_and_capped [OF e n t p] e show ?thesis by (simp add: HomophoneWorker_def)
qed

text \<open>
  C9. Two runs of the worker with the same parameters against the same map emit the
  same ordered list, in whatever order the two Python sets yield their elements: the
  sort key is injective, so the sort fixes the order.
\<close>

theorem search_deterministic:
  "process_emits cmu ratio zipf W out1 \<Longrightarrow> process_emits cmu ratio zipf W out2 \<Longrightarrow> out1 = out2"
  by (simp add: process_emits_iff)

theorem search_deterministic_witness:
  "process_emits example_cmu exact_ratio (zipf_frequency example_wordlist)
     (HomophoneWorker ''Night'' (Some example_map) 0 2 0 False) (Inr [''the'', ''knight'']) \<and>
   process example_cmu exact_ratio (zipf_frequency example_wordlist)
     (HomophoneWorker ''Night'' (Some example_map) 0 2 0 False) = Inr [''the'', ''knight'']"
proof -
  let ?W = "HomophoneWorker ''Night'' (Some example_map) 0 2 0 False"
  let ?Z = "zipf_frequency example_wordlist"
  have n: "cmu_get example_cmu (word ?W) \<noteq> []" by code_simp
  have t: "target_sequences (cmu_get example_cmu (word ?W)) = Inr [[''N'', ''AY'', ''T'']]"
    by code_simp
  have p: "phoneme_map ?W = Some example_map" by (simp add: HomophoneWorker_def)
  have i1: "iteration_of [''the'', ''night'', ''knight'']
      (candidates_of exact_ratio (accuracy ?W) example_map [[''N'', ''AY'', ''T'']])"
    by code_simp
  have i2: "iteration_of [''knight'', ''the'']
      (set (valid_words ?W ?Z [''the'', ''night'', ''knight'']))"
    by code_simp
  have s: "limit (max_results ?W) (sort_words ?Z [''knight'', ''the'']) = [''the'', ''knight'']"
    by code_simp
  have e1: "process_emits example_cmu exact_ratio ?Z ?W (Inr [''the'', ''knight''])"
    using process_emits.ranked [OF n t p i1 i2] by (simp only: s)
  have e2: "process_emits example_cmu exact_ratio ?Z ?W (process example_cmu exact_ratio ?Z ?W)"
    by (rule process_emits_process)
  from search_deterministic [OF e1 e2] e1 show ?thesis by simp
qed

text \<open>
  C6, as the code has it. For a query word without an entry in the store (or with an
  empty one) the worker emits the empty list and nothing else: the same value it emits
  for a known word none of whose candidates survive.
\<close>

theorem unknown_word_emits_empty:
  "cmu_get cmu (lower q) = [] \<Longrightarrow>
   process_emits cmu ratio zipf (HomophoneWorker q pm acc mz mr uf) out \<longleftrightarrow> out = Inr []"
  by (simp add: process_emits_iff process_def HomophoneWorker_def)

theorem unknown_word_emits_empty_witness:
  "cmu_get example_cmu (lower ''Qwerty'') = [] \<and>
   process_emits example_cmu exact_ratio (zipf_frequency example_wordlist)
     (HomophoneWorker ''Qwerty'' (Some example_map) 100 2 10 True) (Inr [])"
proof -
  have h: "cmu_get example_cmu (lower ''Qwerty'') = []" by code_simp
  from unknown_word_emits_empty [OF h] h show ?thesis by simp
qed

text \<open>
  The claim of C6 asks for an outcome tagged \<^verbatim>\<open>UnknownWord\<close> that differs from the empty
  result of a known word. The unknown word \<^verbatim>\<open>qwerty\<close> and the known word \<^verbatim>\<open>the\<close>, which
  has no homophone in the store, produce the same value.
\<close>

theorem unknown_word_untagged_counterexample:
  "cmu_get example_cmu (lower ''qwerty'') = [] \<and>
   cmu_get example_cmu (lower ''the'') \<noteq> [] \<and>
   process example_cmu exact_ratio (zipf_frequency example_wordlist)
     (HomophoneWorker ''qwerty'' (Some example_map) 100 2 10 True) = Inr [] \<and>
   process example_cmu exact_ratio (zipf_frequency example_wordlist)
     (HomophoneWorker ''the'' (Some example_map) 100 2 10 True) = Inr []"
  by code_simp

text \<open>
  C10. The worker built for a query word and the worker built for its lowercased form
  emit the same results: the constructor lowercases the word, and lowercasing twice is
  lowercasing once.
\<close>

theorem query_case_insensitive:
  "process_emits cmu ratio zipf (HomophoneWorker q pm acc mz mr uf) out \<longleftrightarrow>
   process_emits cmu ratio zipf (HomophoneWorker (lower q) pm acc mz mr uf) out"
  by (simp add: HomophoneWorker_def lower_idem)


theorem query_case_insensitive_witness:
  "process_emits example_cmu exact_ratio (zipf_frequency example_wordlist)
     (HomophoneWorker ''NIGHT'' (Some example_map) 100 0 10 True) (Inr [''knight'']) \<and>
   process_emits example_cmu exact_ratio (zipf_frequency example_wordlist)
     (HomophoneWorker ''night'' (Some example_map) 100 0 10 True) (Inr [''knight''])"
proof -
  have e: "process_emits example_cmu exact_ratio (zipf_frequency example_wordlist)
     (HomophoneWorker ''NIGHT'' (Some example_map) 100 0 10 True) (Inr [''knight''])"
    unfolding process_emits_iff by code_simp
  from e query_case_insensitive [of example_cmu exact_ratio "zipf_frequency example_wordlist"
      "''NIGHT''" "Some example_map" 100 0 10 True "Inr [''knight'']"]
  show ?thesis by (simp add: lower_examples)
qed

lemma valid_words_min_zipf:
  "\<not> use_freq_filter W \<Longrightarrow> valid_words (W\<lparr>min_zipf := m\<rparr>) zipf ws = valid_words W zipf ws"
  by (induction ws) simp_all

lemma process_min_zipf:
  "\<not> use_freq_filter W \<Longrightarrow> process cmu ratio zipf (W\<lparr>min_zipf := m\<rparr>) = process cmu ratio zipf W"
  by (auto simp: process_def valid_words_min_zipf Let_def split: sum.splits option.splits)

lemma emitted_survivors:
  assumes "process_emits cmu ratio zipf W (Inr r)" and "x \<in> set r"
  shows "x \<noteq> word W \<and> (use_freq_filter W \<longrightarrow> min_zipf W \<le> zipf x)"
  using assms(1)
proof cases
  case no_prons
  with assms(2) show ?thesis by simp
next
  case (ranked seqs pm ws unique)
  from ranked(1) assms(2) have "x \<in> set (sort_words zipf unique)"
    using set_limit by blast
  then have "x \<in> set (valid_words W zipf ws)"
    using ranked(6) by (simp add: set_sort_words iteration_of_def)
  then show ?thesis by (simp add: set_valid_words survivors_def)
qed

text \<open>
  C3, as the code has it. With the filter on, every returned word has a frequency of at
  least \<^verbatim>\<open>min_zipf\<close>, where a word that the frequency list does not have counts with the
  frequency 0; so such a word is dropped when \<^verbatim>\<open>min_zipf\<close> is positive, as it is for
  every position of the window's slider. With the filter off, \<^verbatim>\<open>min_zipf\<close> has no effect
  on the result, and without a cap the result holds every candidate but the query word.
\<close>

theorem frequency_filter:
  assumes "process_emits cmu ratio (zipf_frequency wl) W (Inr r)"
  shows "(use_freq_filter W \<longrightarrow>
            (\<forall>x \<in> set r. min_zipf W \<le> zipf_frequency wl x) \<and>
            (0 < min_zipf W \<longrightarrow> (\<forall>x \<in> set r. wl x \<noteq> None))) \<and>
         (\<not> use_freq_filter W \<longrightarrow>
            (\<forall>m. process_emits cmu ratio (zipf_frequency wl) (W\<lparr>min_zipf := m\<rparr>) (Inr r)) \<and>
            (\<forall>seqs pm. cmu_get cmu (word W) \<noteq> [] \<and>
                target_sequences (cmu_get cmu (word W)) = Inr seqs \<and>
                phoneme_map W = Some pm \<and> max_results W \<le> 0 \<longrightarrow>
                set r = candidates_of ratio (accuracy W) pm seqs - {word W}))"
proof (intro conjI impI allI ballI)
  fix x assume "use_freq_filter W" "x \<in> set r"
  then show "min_zipf W \<le> zipf_frequency wl x"
    using emitted_survivors[OF assms] by blast
next
  fix x assume f: "use_freq_filter W" and p: "0 < min_zipf W" and x: "x \<in> set r"
  from emitted_survivors[OF assms x] f have "min_zipf W \<le> zipf_frequency wl x" by blast
  with p have "0 < zipf_frequency wl x" by simp
  then show "wl x \<noteq> None" by (auto simp: zipf_frequency_def split: option.splits)
next
  fix m assume "\<not> use_freq_filter W"
  then show "process_emits cmu ratio (zipf_frequency wl) (W\<lparr>min_zipf := m\<rparr>) (Inr r)"
    using assms by (simp add: process_emits_iff process_min_zipf)
next
  fix seqs pm
  assume nf: "\<not> use_freq_filter W"
    and h: "cmu_get cmu (word W) \<noteq> [] \<and> target_sequences (cmu_get cmu (word W)) = Inr seqs \<and>
            phoneme_map W = Some pm \<and> max_results W \<le> 0"
  from h ranked_form[OF assms, of seqs pm] obtain S where
    S: "set S = survivors W (zipf_frequency wl) (candidates_of ratio (accuracy W) pm seqs)"
       "r = limit (max_results W) S"
    by blast
  from S(2) h have "r = S" by (simp add: limit_def)
  with S(1) nf show "set r = candidates_of ratio (accuracy W) pm seqs - {word W}"
    by (auto simp: survivors_def)
qed

theorem frequency_filter_witness:
  "process_emits example_cmu exact_ratio (zipf_frequency example_wordlist)
     (HomophoneWorker ''the'' (Some example_map) 0 5 10 True) (Inr [''night'']) \<and>
   5 \<le> zipf_frequency example_wordlist ''night'' \<and>
   example_wordlist ''night'' \<noteq> None"
proof -
  have e: "process_emits example_cmu exact_ratio (zipf_frequency example_wordlist)
     (HomophoneWorker ''the'' (Some example_map) 0 5 10 True) (Inr [''night''])"
    unfolding process_emits_iff by code_simp
  from frequency_filter [OF e] e show ?thesis by (simp add: HomophoneWorker_def)
qed

text \<open>
  The claim of C3 fails where it has a word with an absent frequency dropped for every
  request. With the filter on and \<^verbatim>\<open>min_zipf = 0\<close>, the word \<^verbatim>\<open>knight\<close>, which the word list
  does not have, scores 0 and is returned.
\<close>

theorem frequency_filter_counterexample:
  "example_wordlist ''knight'' = None \<and>
   use_freq_filter (HomophoneWorker ''night'' (Some example_map) 100 0 10 True) \<and>
   process example_cmu exact_ratio (zipf_frequency example_wordlist)
     (HomophoneWorker ''night'' (Some example_map) 100 0 10 True) = Inr [''knight'']"
  by (simp add: example_process_night) (simp add: example_wordlist_def HomophoneWorker_def)

subsection \<open>The query against the built map\<close>

lemma add_prons_target:
  "add_prons w prons pm = Inr pm' \<Longrightarrow> \<exists>seqs. target_sequences prons = Inr seqs"
proof (induction prons arbitrary: pm)
  case Nil
  then show ?case by simp
next
  case (Cons p prons)
  from Cons.prems obtain c where c: "clean p = Inr c"
    and r: "add_prons w prons (dict_append c (lower w) pm) = Inr pm'"
    by (auto split: sum.splits)
  from Cons.IH[OF r] obtain seqs where "target_sequences prons = Inr seqs" by blast
  with c show ?case by simp
qed

lemma run_loop_entry:
  "run_loop fl tot i cmu pm = (es, Inr pm') \<Longrightarrow> (w, prons) \<in> set cmu \<Longrightarrow>
   \<exists>seqs. target_sequences prons = Inr seqs"
proof (induction cmu arbitrary: pm i es)
  case Nil
  then show ?case by simp
next
  case (Cons a cmu)
  obtain w' prons' where a: "a = (w', prons')" by (cases a)
  from Cons.prems(1) a obtain pm1 es1 where
    1: "add_prons w' prons' pm = Inr pm1" and
    2: "run_loop fl tot (Suc i) cmu pm1 = (es1, Inr pm')"
    by (auto split: sum.splits prod.splits)
  show ?case
  proof (cases "(w, prons) = a")
    case True
    with a 1 show ?thesis using add_prons_target by blast
  next
    case False
    with Cons.prems(2) have "(w, prons) \<in> set cmu" by simp
    from Cons.IH[OF 2 this] show ?thesis .
  qed
qed

lemma target_sequences_set:
  "target_sequences prons = Inr seqs \<Longrightarrow> set seqs = {k. \<exists>p \<in> set prons. clean p = Inr k}"
  by (induction prons arbitrary: seqs) (auto split: sum.splits)

lemma target_sequences_nonempty:
  "target_sequences prons = Inr seqs \<Longrightarrow> prons \<noteq> [] \<Longrightarrow> seqs \<noteq> []"
  by (cases prons) (auto split: sum.splits)

lemma variant_count_pos:
  "(w, prons) \<in> set cmu \<Longrightarrow> p \<in> set prons \<Longrightarrow> clean p = Inr k \<Longrightarrow>
   0 < variant_count cmu (lower w) k"
proof (induction cmu)
  case Nil
  then show ?case by simp
next
  case (Cons a cmu)
  show ?case
  proof (cases "(w, prons) = a")
    case True
    have "0 < length (filter (\<lambda>p. clean p = Inr k) prons)"
      using Cons.prems(2,3) by (auto simp: filter_empty_conv)
    with True show ?thesis by (auto simp: variant_count_def)
  next
    case False
    with Cons have "0 < variant_count cmu (lower w) k" by simp
    then show ?thesis by (simp add: variant_count_def)
  qed
qed

lemma variant_count_lower:
  "0 < variant_count cmu x k \<Longrightarrow> \<exists>w. x = lower w"
  by (induction cmu) (auto simp: variant_count_def split: if_splits)

lemma dict_get_key: "x \<in> set (dict_get pm k) \<Longrightarrow> k \<in> fst ` set pm"
proof -
  assume "x \<in> set (dict_get pm k)"
  then obtain vs where "map_of pm k = Some vs"
    by (cases "map_of pm k") (simp_all add: dict_get_def)
  then have "(k, vs) \<in> set pm" by (rule map_of_SomeD)
  then show ?thesis by (rule rev_image_eqI) simp
qed

lemma cmu_get_entry: "cmu_get cmu w \<noteq> [] \<Longrightarrow> (w, cmu_get cmu w) \<in> set cmu"
  by (auto simp: cmu_get_def split: option.splits dest: map_of_SomeD)

lemma count_list_pos: "x \<in> set xs \<longleftrightarrow> 0 < count_list xs x"
  using count_list_0_iff[of xs x] by auto

lemma built_words_lower:
  assumes "run fl cmu = (es, Inr pm)" and "x \<in> set (dict_get pm k)"
  shows "lower x = x"
proof -
  from assms(2) have "0 < count_list (dict_get pm k) x" by (simp add: count_list_pos)
  then have "0 < variant_count cmu x k" using count_run[OF assms(1)] by simp
  then obtain w where "x = lower w" using variant_count_lower by blast
  then show ?thesis by (simp add: lower_idem)
qed

lemma built_key:
  assumes "run fl cmu = (es, Inr pm)" and "(w, prons) \<in> set cmu" and "p \<in> set prons"
    and "clean p = Inr k"
  shows "k \<in> fst ` set pm"
proof -
  have "0 < variant_count cmu (lower w) k" using assms(2-4) by (rule variant_count_pos)
  then have "0 < count_list (dict_get pm k) (lower w)" using count_run[OF assms(1)] by simp
  then have "lower w \<in> set (dict_get pm k)" by (simp add: count_list_pos)
  then show ?thesis by (rule dict_get_key)
qed

text \<open>
  C1. Let the map be the one built from the store, let \<^verbatim>\<open>fuzz.ratio\<close> score a string
  against itself with at least 100, and let the lowercased query word have a non-empty
  entry in the store. Then the normalised pronunciations of the query exist and each of
  them is among the sequences matched at threshold 100; and the worker, at any
  threshold, emits a list in which no word equals the query word up to case.
\<close>

theorem reflexive_match_and_self_exclusion:
  assumes refl: "\<forall>s. 100 \<le> ratio s s"
    and built: "run fl cmu = (es, Inr pm)"
    and known: "cmu_get cmu (lower q) \<noteq> []"
  shows "\<exists>seqs. target_sequences (cmu_get cmu (lower q)) = Inr seqs \<and> seqs \<noteq> [] \<and>
           set seqs \<subseteq> matched_sequences ratio 100 pm seqs \<and>
           (\<forall>out. process_emits cmu ratio zipf (HomophoneWorker q (Some pm) acc mz mr uf) out
              \<longrightarrow> (\<exists>r. out = Inr r \<and> (\<forall>x \<in> set r. lower x \<noteq> lower q)))"
proof -
  let ?prons = "cmu_get cmu (lower q)"
  let ?W = "HomophoneWorker q (Some pm) acc mz mr uf"
  have W: "word ?W = lower q" "phoneme_map ?W = Some pm" "accuracy ?W = acc"
    by (simp_all add: HomophoneWorker_def)
  from known have entry: "(lower q, ?prons) \<in> set cmu" by (rule cmu_get_entry)
  from built have loop: "run_loop fl (length cmu) 0 cmu [] = (es, Inr pm)" by (simp add: run_def)
  from run_loop_entry[OF loop entry] obtain seqs where seqs: "target_sequences ?prons = Inr seqs"
    by blast
  have ne: "seqs \<noteq> []" using seqs known by (rule target_sequences_nonempty)
  have sub: "set seqs \<subseteq> matched_sequences ratio 100 pm seqs"
  proof
    fix s assume s: "s \<in> set seqs"
    then obtain p where p: "p \<in> set ?prons" "clean p = Inr s"
      using target_sequences_set[OF seqs] by blast
    have "s \<in> fst ` set pm" using built entry p by (rule built_key)
    moreover have "100 \<le> ratio (join '' '' s) (join '' '' s)" using refl by blast
    ultimately show "s \<in> matched_sequences ratio 100 pm seqs"
      using s by (auto simp: matched_sequences_eq)
  qed
  have res: "\<forall>out. process_emits cmu ratio zipf ?W out
      \<longrightarrow> (\<exists>r. out = Inr r \<and> (\<forall>x \<in> set r. lower x \<noteq> lower q))"
  proof (intro allI impI)
    fix out assume em: "process_emits cmu ratio zipf ?W out"
    then have "out = process cmu ratio zipf ?W" by (rule process_emits_unique)
    then obtain r where r: "out = Inr r"
      using seqs known by (simp add: process_def W Let_def)
    have "\<forall>x \<in> set r. lower x \<noteq> lower q"
    proof
      fix x assume x: "x \<in> set r"
      from em r have em': "process_emits cmu ratio zipf ?W (Inr r)" by simp
      from emitted_survivors[OF em' x] have nq: "x \<noteq> lower q" by (simp add: W)
      from ranked_form[OF em', of seqs pm] seqs known W obtain S where
        S: "set S = survivors ?W zipf (candidates_of ratio acc pm seqs)" "r = limit mr S"
        by (auto simp: HomophoneWorker_def)
      from x S(2) have "x \<in> set S" using set_limit by blast
      with S(1) have "x \<in> candidates_of ratio acc pm seqs" by (simp add: survivors_def)
      then obtain k where "x \<in> set (dict_get pm k)" by (auto simp: candidates_of_eq)
      with built have "lower x = x" by (rule built_words_lower)
      with nq show "lower x \<noteq> lower q" by simp
    qed
    with r show "\<exists>r. out = Inr r \<and> (\<forall>x \<in> set r. lower x \<noteq> lower q)" by blast
  qed
  from seqs ne sub res show ?thesis by blast
qed

theorem reflexive_match_and_self_exclusion_witness:
  "(\<forall>s. 100 \<le> exact_ratio s s) \<and>
   run exact example_cmu = ([0, 33, 66], Inr example_map) \<and>
   cmu_get example_cmu (lower ''Night'') \<noteq> [] \<and>
   (\<exists>seqs. target_sequences (cmu_get example_cmu (lower ''Night'')) = Inr seqs \<and>
      seqs \<noteq> [] \<and>
      set seqs \<subseteq> matched_sequences exact_ratio 100 example_map seqs \<and>
      (\<forall>out. process_emits example_cmu exact_ratio (zipf_frequency example_wordlist)
          (HomophoneWorker ''Night'' (Some example_map) 100 0 10 True) out
        \<longrightarrow> (\<exists>r. out = Inr r \<and> (\<forall>x \<in> set r. lower x \<noteq> lower ''Night''))))"
proof -
  have h1: "\<forall>s. 100 \<le> exact_ratio s s" by (simp add: exact_ratio_def)
  have h3: "cmu_get example_cmu (lower ''Night'') \<noteq> []" by code_simp
  from reflexive_match_and_self_exclusion [where ratio = exact_ratio and q = "''Night''"
      and zipf = "zipf_frequency example_wordlist" and acc = 100 and mz = 0 and mr = 10
      and uf = True, OF h1 run_example h3] h1 run_example h3
  show ?thesis by blast
qed

end
